theory Spec2Isabelle
  imports Complex_Main "HOL-Library.Word" "HOL-Library.AList"
begin

unbundle bit_operations_syntax

chapter \<open>Aurora Code: framed Reed-Solomon channel over GF(256)\<close>

text \<open>
  A shallow embedding of the codec of the repository: the Galois field tables and
  operations, the Reed-Solomon encoder and erasure decoder, the frame codec, the packet
  encoder, the band codec, the decision logic of the detector and the multi-frame
  decoder. Bytes held in a \<^verbatim>\<open>Uint8Array\<close> are \<^typ>\<open>8 word\<close>; other JavaScript numbers
  (indices, counts, header fields) are \<^typ>\<open>nat\<close>; a thrown \<^verbatim>\<open>Error\<close> is the left
  summand of a sum type; \<^verbatim>\<open>null\<close> is \<^term>\<open>None\<close>.
\<close>

section \<open>GF(256) arithmetic (galoisField.ts)\<close>

type_synonym byte = "8 word"

datatype gf_error = DivisionByZero | ZeroInverse

definition GF_SIZE :: nat where "GF_SIZE = 256"
definition PRIMITIVE_POLYNOMIAL :: nat where "PRIMITIVE_POLYNOMIAL = 0x11d"

text \<open>
  \<^verbatim>\<open>initTables\<close>: the loop over \<open>i = 0 .. 254\<close> with the running value \<open>x\<close>, writing
  \<open>gfExp[i]\<close>, \<open>gfExp[i + 255]\<close> and \<open>gfLog[x]\<close>. The arrays are created zero-filled with 512
  and 256 entries; after the loop \<open>gfLog[0]\<close> is set to 0.
\<close>

function initLoop :: "nat \<Rightarrow> nat \<Rightarrow> byte list \<Rightarrow> byte list \<Rightarrow> byte list \<times> byte list" where
  "initLoop i x ex lg =
     (if i < 255 then
        (let ex1 = ex[i := of_nat x];
             ex2 = ex1[i + 255 := of_nat x];
             lg1 = lg[x := of_nat i];
             x1 = push_bit 1 x;
             x2 = (if x1 \<ge> GF_SIZE then x1 XOR PRIMITIVE_POLYNOMIAL else x1)
         in initLoop (i + 1) x2 ex2 lg1)
      else (ex, lg))"
  by pat_completeness auto
termination
  by (relation "measure (\<lambda>(i, x, ex, lg). 255 - i)") auto

declare initLoop.simps [simp del]

definition initTables :: "byte list \<times> byte list" where
  "initTables =
     (case initLoop 0 1 (replicate 512 0) (replicate 256 0) of
        (ex, lg) \<Rightarrow> (ex, lg[0 := 0]))"

definition gfExp :: "byte list" where "gfExp = fst initTables"
definition gfLog :: "byte list" where "gfLog = snd initTables"

definition gfAdd :: "byte \<Rightarrow> byte \<Rightarrow> byte" where
  "gfAdd a b = a XOR b"

definition gfSub :: "byte \<Rightarrow> byte \<Rightarrow> byte" where
  "gfSub a b = a XOR b"

text \<open>
  The operands are field elements, that is bytes; the table indices are sums of two
  logarithms read back as numbers, so they do not wrap.
\<close>

definition gfMul :: "byte \<Rightarrow> byte \<Rightarrow> byte" where
  "gfMul a b =
     (if a = 0 \<or> b = 0 then 0
      else gfExp ! (unat (gfLog ! unat a) + unat (gfLog ! unat b)))"

definition gfDiv :: "byte \<Rightarrow> byte \<Rightarrow> gf_error + byte" where
  "gfDiv a b =
     (if b = 0 then Inl DivisionByZero
      else if a = 0 then Inr 0
      else Inr (gfExp ! (unat (gfLog ! unat a) + 255 - unat (gfLog ! unat b))))"

definition gfPow :: "byte \<Rightarrow> nat \<Rightarrow> byte" where
  "gfPow a n =
     (if n = 0 then 1
      else if a = 0 then 0
      else gfExp ! ((unat (gfLog ! unat a) * n) mod 255))"

definition gfInverse :: "byte \<Rightarrow> gf_error + byte" where
  "gfInverse a =
     (if a = 0 then Inl ZeroInverse
      else Inr (gfExp ! (255 - unat (gfLog ! unat a))))"

text \<open>
  A read of a \<^verbatim>\<open>Uint8Array\<close> outside its range gives \<^verbatim>\<open>undefined\<close>, which the
  field operations and a store into a \<^verbatim>\<open>Uint8Array\<close> treat as 0.
\<close>

definition u8get :: "byte list \<Rightarrow> nat \<Rightarrow> byte" where
  "u8get xs i = (if i < length xs then xs ! i else 0)"

text \<open>
  Polynomials are coefficient arrays, index 0 the lowest degree. \<^verbatim>\<open>polyMul\<close> is only
  applied to non-empty arrays, where the length \<open>|p| + |q| - 1\<close> is not negative.
\<close>

definition polyMul :: "byte list \<Rightarrow> byte list \<Rightarrow> byte list" where
  "polyMul p q =
     fold (\<lambda>i. fold (\<lambda>j res. res[i + j := gfAdd (res ! (i + j)) (gfMul (p ! i) (q ! j))])
                   [0..<length q])
       [0..<length p] (replicate (length p + length q - 1) 0)"

definition polyEval :: "byte list \<Rightarrow> byte \<Rightarrow> byte" where
  "polyEval p x = foldr (\<lambda>c res. gfAdd (gfMul res x) c) p 0"


section \<open>Reed-Solomon codec (reedSolomon.ts)\<close>



definition calcSyndromes :: "byte list \<Rightarrow> nat \<Rightarrow> byte list" where
  "calcSyndromes received parityCount =
     map (\<lambda>i. polyEval received (gfPow 2 i)) [0..<parityCount]"

definition calcErasureLocator :: "nat list \<Rightarrow> byte list" where
  "calcErasureLocator erasurePositions =
     fold (\<lambda>pos locator. polyMul locator [gfPow 2 pos, 1]) erasurePositions [1]"

text \<open>
  \<^verbatim>\<open>calcErasureValues\<close>: the array \<open>omega\<close>, then one value per erased position; the
  calls of \<^verbatim>\<open>gfInverse\<close> and \<^verbatim>\<open>gfDiv\<close> may throw, which ends the whole computation.
\<close>

definition calcOmega :: "byte list \<Rightarrow> byte list \<Rightarrow> nat \<Rightarrow> byte list" where
  "calcOmega syndromes erasureLocator n =
     map (\<lambda>i. fold (\<lambda>j sum. gfAdd sum (gfMul (u8get syndromes j) (u8get erasureLocator (i - j))))
                [0..<i + 1] 0)
       [0..<n]"

definition oddIndices :: "nat \<Rightarrow> nat list" where
  "oddIndices len = filter odd [1..<len]"

definition erasureValue :: "byte list \<Rightarrow> byte list \<Rightarrow> nat \<Rightarrow> nat \<Rightarrow> gf_error + byte" where
  "erasureValue omega erasureLocator n pos =
     (let xi = gfPow 2 pos
      in case gfInverse xi of
           Inl e \<Rightarrow> Inl e
         | Inr xiInv \<Rightarrow>
             (let omegaVal = fold (\<lambda>j v. gfAdd v (gfMul (omega ! j) (gfPow xiInv j))) [0..<n] 0;
                  locatorDerivVal =
                    fold (\<lambda>j v. gfAdd v (gfMul (erasureLocator ! j) (gfPow xiInv (j - 1))))
                      (oddIndices (length erasureLocator)) 0
              in case gfDiv omegaVal locatorDerivVal of
                   Inl e \<Rightarrow> Inl e
                 | Inr q \<Rightarrow> Inr (gfMul xi q)))"

fun mapE :: "('a \<Rightarrow> 'e + 'b) \<Rightarrow> 'a list \<Rightarrow> 'e + 'b list" where
  "mapE f [] = Inr []"
| "mapE f (x # xs) =
     (case f x of
        Inl e \<Rightarrow> Inl e
      | Inr y \<Rightarrow> (case mapE f xs of Inl e \<Rightarrow> Inl e | Inr ys \<Rightarrow> Inr (y # ys)))"

definition calcErasureValues :: "byte list \<Rightarrow> nat list \<Rightarrow> byte list \<Rightarrow> gf_error + byte list" where
  "calcErasureValues syndromes erasurePositions erasureLocator =
     (let n = length erasurePositions
      in if n = 0 then Inr []
         else mapE (erasureValue (calcOmega syndromes erasureLocator n) erasureLocator n)
                erasurePositions)"

text \<open>The final loop of \<^verbatim>\<open>rsDecode\<close>: \<open>result[i] = received[n - 1 - i]\<close>.\<close>

definition extractData :: "byte list \<Rightarrow> nat \<Rightarrow> byte list" where
  "extractData received dataLength =
     map (\<lambda>i. if i < length received then received ! (length received - 1 - i) else 0)
       [0..<dataLength]"

text \<open>
  \<^verbatim>\<open>rsDecode\<close>: \<open>Inr None\<close> is the returned \<^verbatim>\<open>null\<close>, \<open>Inr (Some bs)\<close> a returned array
  and \<open>Inl e\<close> an exception thrown by the field arithmetic.
\<close>

definition rsDecode :: "byte option list \<Rightarrow> nat \<Rightarrow> nat \<Rightarrow> gf_error + byte list option" where
  "rsDecode data dataLength parityCount =
     (let n = length data;
          erasurePositions = map (\<lambda>i. n - 1 - i) (filter (\<lambda>i. data ! i = None) [0..<n])
      in if length erasurePositions > parityCount then Inr None
         else
           (let received = map (\<lambda>i. case data ! (n - 1 - i) of None \<Rightarrow> 0 | Some b \<Rightarrow> b) [0..<n]
            in if length erasurePositions = 0 then Inr (Some (extractData received dataLength))
               else
                 (let syndromes = calcSyndromes received parityCount
                  in if list_all (\<lambda>s. s = 0) syndromes
                     then Inr (Some (extractData received dataLength))
                     else
                       (let erasureLocator = calcErasureLocator erasurePositions
                        in case calcErasureValues syndromes erasurePositions erasureLocator of
                             Inl e \<Rightarrow> Inl e
                           | Inr erasureValues \<Rightarrow>
                               Inr (Some (extractData
                                 (fold (\<lambda>i r. r[erasurePositions ! i :=
                                            gfAdd (r ! (erasurePositions ! i)) (erasureValues ! i)])
                                    [0..<length erasurePositions] received)
                                 dataLength))))))"

section \<open>CRC-8\<close>



section \<open>Frame codec (frameEncoder.ts)\<close>

definition FRAME_DATA_SIZE :: nat where "FRAME_DATA_SIZE = 10"

record AuroraFrame =
  frameIndex :: nat
  totalFrames :: nat
  sequenceId :: nat
  dataChunk :: "byte list"
  checksum :: nat


text \<open>
  \<^verbatim>\<open>x & 0xff\<close> and \<^verbatim>\<open>(x >> 8) & 0xff\<close> on a non-negative integer are the bit operations
  of \<^typ>\<open>nat\<close>; \<^verbatim>\<open>frame.dataChunk[i] || 0\<close> reads 0 outside the chunk.
\<close>

definition serializeFrame :: "AuroraFrame \<Rightarrow> byte list" where
  "serializeFrame frame =
     [of_nat (frameIndex frame AND 0xff),
      of_nat (totalFrames frame AND 0xff),
      of_nat (drop_bit 8 (sequenceId frame) AND 0xff),
      of_nat (sequenceId frame AND 0xff)]
     @ map (\<lambda>i. u8get (dataChunk frame) i) [0..<FRAME_DATA_SIZE]
     @ [of_nat (checksum frame AND 0xff), 0]"

text \<open>
  \<^verbatim>\<open>deserializeFrame\<close> is applied to arrays of 16 bytes (the callers build them with
  \<^verbatim>\<open>new Uint8Array(FRAME_TOTAL_SIZE)\<close>), so the header reads are in range.
\<close>

definition deserializeFrame :: "byte list \<Rightarrow> AuroraFrame" where
  "deserializeFrame data =
     \<lparr>frameIndex = unat (data ! 0),
      totalFrames = unat (data ! 1),
      sequenceId = push_bit 8 (unat (data ! 2)) OR unat (data ! 3),
      dataChunk = map (\<lambda>i. u8get data (4 + i)) [0..<FRAME_DATA_SIZE],
      checksum = unat (data ! 14)\<rparr>"


section \<open>Text codec of the platform\<close>

text \<open>
  \<^verbatim>\<open>TextEncoder\<close> and \<^verbatim>\<open>TextDecoder\<close> belong to the JavaScript platform, not to the
  repository. A string is modelled by its sequence of code points. The encoder is UTF-8
  and writes \<open>U+FFFD\<close> for a lone surrogate. The decoder is the UTF-8 decoder of the
  Encoding Standard in its default mode: an ill-formed sequence gives \<open>U+FFFD\<close> and
  the offending byte is read again, and one leading \<open>U+FEFF\<close> is dropped.
\<close>

type_synonym jsstring = "nat list"



record utf8_state =
  codePoint :: nat
  bytesSeen :: nat
  bytesNeeded :: nat
  lowerBoundary :: nat
  upperBoundary :: nat

definition utf8Init :: utf8_state where
  "utf8Init = \<lparr>codePoint = 0, bytesSeen = 0, bytesNeeded = 0,
               lowerBoundary = 0x80, upperBoundary = 0xBF\<rparr>"

definition utf8Lead :: "nat \<Rightarrow> nat list \<times> utf8_state" where
  "utf8Lead b =
     (if b \<le> 0x7F then ([b], utf8Init)
      else if 0xC2 \<le> b \<and> b \<le> 0xDF then
        ([], utf8Init\<lparr>bytesNeeded := 1, codePoint := b AND 0x1F\<rparr>)
      else if 0xE0 \<le> b \<and> b \<le> 0xEF then
        ([], utf8Init\<lparr>bytesNeeded := 2, codePoint := b AND 0xF,
                      lowerBoundary := (if b = 0xE0 then 0xA0 else 0x80),
                      upperBoundary := (if b = 0xED then 0x9F else 0xBF)\<rparr>)
      else if 0xF0 \<le> b \<and> b \<le> 0xF4 then
        ([], utf8Init\<lparr>bytesNeeded := 3, codePoint := b AND 0x7,
                      lowerBoundary := (if b = 0xF0 then 0x90 else 0x80),
                      upperBoundary := (if b = 0xF4 then 0x8F else 0xBF)\<rparr>)
      else ([0xFFFD], utf8Init))"

fun utf8Decode :: "utf8_state \<Rightarrow> byte list \<Rightarrow> jsstring" where
  "utf8Decode st [] = (if bytesNeeded st \<noteq> 0 then [0xFFFD] else [])"
| "utf8Decode st (w # ws) =
     (let b = unat w
      in if bytesNeeded st = 0 then
           (case utf8Lead b of (out, st') \<Rightarrow> out @ utf8Decode st' ws)
         else if b < lowerBoundary st \<or> upperBoundary st < b then
           (case utf8Lead b of (out, st') \<Rightarrow> 0xFFFD # out @ utf8Decode st' ws)
         else
           (let cp = push_bit 6 (codePoint st) OR (b AND 0x3F)
            in if bytesSeen st + 1 \<noteq> bytesNeeded st then
                 utf8Decode (st\<lparr>codePoint := cp, bytesSeen := bytesSeen st + 1,
                                lowerBoundary := 0x80, upperBoundary := 0xBF\<rparr>) ws
               else cp # utf8Decode utf8Init ws))"

definition textDecode :: "byte list \<Rightarrow> jsstring" where
  "textDecode bs =
     (case utf8Decode utf8Init bs of
        [] \<Rightarrow> []
      | c # cs \<Rightarrow> if c = 0xFEFF then cs else c # cs)"


section \<open>Packet encoder (frameEncoder.ts)\<close>






section \<open>Band codec (bandEncoder.ts)\<close>

definition NUM_BANDS :: nat where "NUM_BANDS = 32"



section \<open>Detector (detector.ts)\<close>

record RGBColor =
  colorR :: nat
  colorG :: nat
  colorB :: nat







section \<open>Multi-frame decoder (decoder.ts)\<close>

text \<open>
  The \<^verbatim>\<open>Map\<close> of collected frames is an association list in insertion order;
  \<^verbatim>\<open>set\<close> replaces the entry of a key in place or appends a new one, as
  \<^const>\<open>AList.update\<close> does, so its \<^verbatim>\<open>size\<close> is the length of the list.
\<close>

record DecoderState =
  stSequenceId :: "nat option"
  stTotalFrames :: "nat option"
  stDataFrames :: "nat option"
  stParityFrames :: "nat option"
  collectedFrames :: "(nat \<times> AuroraFrame) list"
  stOriginalDataLength :: "nat option"

datatype decode_error =
  InsufficientFrames nat nat
| ColumnDecodeFailed nat
| DecodeException gf_error

record DecodeStats =
  statTotalFrames :: nat
  statCollectedFrames :: nat
  missingFrames :: "nat list"
  recoveredFrames :: nat

record DecodeResult =
  success :: bool
  resultData :: "jsstring option"
  error :: "decode_error option"
  stats :: DecodeStats

text \<open>The state a new decoder starts with, and the one \<^verbatim>\<open>reset()\<close> assigns.\<close>

definition reset :: DecoderState where
  "reset = \<lparr>stSequenceId = None, stTotalFrames = None, stDataFrames = None,
            stParityFrames = None, collectedFrames = [], stOriginalDataLength = None\<rparr>"

text \<open>\<^verbatim>\<open>v || 0\<close>, and \<^verbatim>\<open>v!\<close> used as a number, for a field that may be \<^verbatim>\<open>null\<close>.\<close>

definition orZero :: "nat option \<Rightarrow> nat" where
  "orZero v = (case v of None \<Rightarrow> 0 | Some n \<Rightarrow> n)"

text \<open>\<^verbatim>\<open>Math.ceil(frame.totalFrames * 0.8)\<close>, see the note at the packet encoder.\<close>

definition estimateDataFrames :: "nat \<Rightarrow> nat" where
  "estimateDataFrames n = (4 * n + 4) div 5"

text \<open>The four assignments that take the sequence information from a frame.\<close>

definition adopt :: "AuroraFrame \<Rightarrow> DecoderState \<Rightarrow> DecoderState" where
  "adopt frame st =
     st\<lparr>stSequenceId := Some (sequenceId frame),
        stTotalFrames := Some (totalFrames frame),
        stDataFrames := Some (estimateDataFrames (totalFrames frame)),
        stParityFrames := Some (totalFrames frame - estimateDataFrames (totalFrames frame))\<rparr>"

text \<open>\<^verbatim>\<open>addFrame\<close> returns its boolean together with the state it leaves.\<close>

definition addFrame :: "AuroraFrame \<Rightarrow> DecoderState \<Rightarrow> bool \<times> DecoderState" where
  "addFrame frame st =
     (let st1 = (if stSequenceId st = None then adopt frame st else st);
          st2 = (if Some (sequenceId frame) \<noteq> stSequenceId st1 then adopt frame reset else st1)
      in if frameIndex frame \<ge> orZero (stTotalFrames st2) then (False, st2)
         else (True, st2\<lparr>collectedFrames :=
                 AList.update (frameIndex frame) frame (collectedFrames st2)\<rparr>))"

definition addFrames :: "AuroraFrame list \<Rightarrow> DecoderState \<Rightarrow> DecoderState" where
  "addFrames fs st = fold (\<lambda>f s. snd (addFrame f s)) fs st"

text \<open>\<^verbatim>\<open>getProgress\<close>, without the percentage, which no decision reads.\<close>

record DecoderProgress =
  collected :: nat
  required :: nat
  progressTotal :: nat
  canDecode :: bool

definition getProgress :: "DecoderState \<Rightarrow> DecoderProgress" where
  "getProgress st =
     \<lparr>collected = length (collectedFrames st),
      required = orZero (stDataFrames st),
      progressTotal = orZero (stTotalFrames st),
      canDecode = (length (collectedFrames st) \<ge> orZero (stDataFrames st))\<rparr>"

definition getMissingIndices :: "DecoderState \<Rightarrow> nat list" where
  "getMissingIndices st =
     filter (\<lambda>i. map_of (collectedFrames st) i = None) [0..<orZero (stTotalFrames st)]"

definition failure :: "DecoderState \<Rightarrow> decode_error \<Rightarrow> DecodeResult" where
  "failure st e =
     \<lparr>success = False, resultData = None, error = Some e,
      stats = \<lparr>statTotalFrames = orZero (stTotalFrames st),
               statCollectedFrames = length (collectedFrames st),
               missingFrames = getMissingIndices st,
               recoveredFrames = 0\<rparr>\<rparr>"

definition frameColumn :: "DecoderState \<Rightarrow> nat \<Rightarrow> nat \<Rightarrow> byte option list" where
  "frameColumn st totalF bytePos =
     map (\<lambda>frameIdx. case map_of (collectedFrames st) frameIdx of
                        Some frame \<Rightarrow> Some (u8get (dataChunk frame) bytePos)
                      | None \<Rightarrow> None)
       [0..<totalF]"

text \<open>
  The loop over the byte positions inside the \<^verbatim>\<open>try\<close> block: it stops at the first
  column that \<^verbatim>\<open>rsDecode\<close> gives up on (\<^verbatim>\<open>null\<close>) or that throws.
\<close>

fun decodeColumns ::
  "DecoderState \<Rightarrow> nat \<Rightarrow> nat \<Rightarrow> nat \<Rightarrow> nat list \<Rightarrow> decode_error + byte list list" where
  "decodeColumns st totalF dataF parityF [] = Inr []"
| "decodeColumns st totalF dataF parityF (bytePos # rest) =
     (case rsDecode (frameColumn st totalF bytePos) dataF parityF of
        Inl e \<Rightarrow> Inl (DecodeException e)
      | Inr None \<Rightarrow> Inl (ColumnDecodeFailed bytePos)
      | Inr (Some decoded) \<Rightarrow>
          (case decodeColumns st totalF dataF parityF rest of
             Inl e \<Rightarrow> Inl e
           | Inr cols \<Rightarrow> Inr (decoded # cols)))"

definition decode :: "DecoderState \<Rightarrow> DecodeResult" where
  "decode st =
     (let progress = getProgress st
      in if \<not> canDecode progress
         then failure st (InsufficientFrames (collected progress) (required progress))
         else
           (let totalF = orZero (stTotalFrames st);
                dataF = orZero (stDataFrames st);
                parityF = orZero (stParityFrames st)
            in case decodeColumns st totalF dataF parityF [0..<FRAME_DATA_SIZE] of
                 Inl e \<Rightarrow> failure st e
               | Inr decodedColumns \<Rightarrow>
                   (let decodedData =
                          concat (map (\<lambda>frameIdx.
                                         map (\<lambda>bytePos. decodedColumns ! bytePos ! frameIdx)
                                           [0..<FRAME_DATA_SIZE])
                                    [0..<dataF]);
                        decodedText = takeWhile (\<lambda>c. c \<noteq> 0) (textDecode decodedData)
                    in \<lparr>success = True, resultData = Some decodedText, error = None,
                        stats = \<lparr>statTotalFrames = totalF,
                                 statCollectedFrames = collected progress,
                                 missingFrames = getMissingIndices st,
                                 recoveredFrames = length (getMissingIndices st)\<rparr>\<rparr>)))"

definition decodeFromFrames :: "AuroraFrame list \<Rightarrow> DecodeResult" where
  "decodeFromFrames fs = decode (addFrames fs reset)"

section \<open>Proof devices\<close>

text \<open>
  Multiplication by the primitive element on bytes, its inverse, the powers of the
  primitive element, and a shift-and-add multiplication that is shown equal to the
  table-driven \<^const>\<open>gfMul\<close> and evaluates products of concrete bytes without the tables.
\<close>

definition xt :: "byte \<Rightarrow> byte" where
  "xt a = (if 128 \<le> a then push_bit 1 a XOR 29 else push_bit 1 a)"

definition xtInv :: "byte \<Rightarrow> byte" where
  "xtInv b = (if odd b then drop_bit 1 (b XOR 29) OR 128 else drop_bit 1 b)"

definition alpha :: "nat \<Rightarrow> byte" where
  "alpha i = (xt ^^ i) 1"

fun noUnit :: "nat \<Rightarrow> byte \<Rightarrow> bool" where
  "noUnit 0 b = True"
| "noUnit (Suc n) b = (b \<noteq> 1 \<and> noUnit n (xt b))"

fun allBelow :: "nat \<Rightarrow> (nat \<Rightarrow> bool) \<Rightarrow> bool" where
  "allBelow 0 P = True"
| "allBelow (Suc n) P = (P n \<and> allBelow n P)"

fun gmulBits :: "nat \<Rightarrow> byte \<Rightarrow> byte \<Rightarrow> byte" where
  "gmulBits 0 a b = 0"
| "gmulBits (Suc n) a b = (if odd b then a else 0) XOR gmulBits n (xt a) (drop_bit 1 b)"

chapter \<open>Properties\<close>

section \<open>The field tables and the field laws\<close>

lemma allBelow_iff: "allBelow n P \<longleftrightarrow> (\<forall>i<n. P i)"
  by (induction n) (auto simp: less_Suc_eq)

lemma allBelow_numeral:
  "allBelow (numeral k) P = (P (pred_numeral k) \<and> allBelow (pred_numeral k) P)"
  by (simp add: numeral_eq_Suc)

lemma byte_cases:
  assumes "\<And>n. n < 256 \<Longrightarrow> P (word_of_nat n :: byte)"
  shows "P b"
proof -
  have "unat b < 256" using unsigned_less [of b] by simp
  then have "P (word_of_nat (unat b))" by (rule assms)
  then show ?thesis by simp
qed

lemma byte_all:
  assumes "allBelow 256 (\<lambda>n. P (word_of_nat n :: byte))"
  shows "P b"
  using assms by (auto simp: allBelow_iff intro: byte_cases)

lemma not_128_le_1: "\<not> 128 \<le> (1 :: byte)"
  by (simp add: word_le_nat_alt)

lemma xt_unat:
  "unat (xt b) = (if 256 \<le> 2 * unat b then (2 * unat b) XOR 285 else 2 * unat b)"
  by (rule byte_all [of _ b]) (simp add: allBelow_numeral xt_def not_128_le_1)

lemma xtInv_xt: "xtInv (xt b) = b"
  by (rule byte_all [of _ b]) (simp add: allBelow_numeral xt_def xtInv_def not_128_le_1)

lemma bit7_iff: "bit (b :: byte) 7 \<longleftrightarrow> 128 \<le> b"
  by (rule byte_all [of _ b]) (simp add: allBelow_numeral not_128_le_1)


lemma xt_alt: "xt a = push_bit 1 a XOR (if bit a 7 then 29 else 0)"
  by (simp add: xt_def bit7_iff)

lemma xt_xor: "xt (a XOR b) = xt a XOR xt b"
  by (simp add: xt_alt bit_xor_iff xor.assoc xor.left_commute)

lemma xt_zero: "xt 0 = 0"
  by (simp add: xt_def)

lemma xt_inj: "xt a = xt b \<Longrightarrow> a = b"
  by (metis xtInv_xt)

lemma xt_pow_xor: "(xt ^^ n) (a XOR b) = (xt ^^ n) a XOR (xt ^^ n) b"
  by (induction n) (simp_all add: xt_xor)

lemma xt_pow_zero: "(xt ^^ n) 0 = 0"
  by (induction n) (simp_all add: xt_zero)

lemma xt_pow_inj: "(xt ^^ n) a = (xt ^^ n) b \<Longrightarrow> a = b"
  by (induction n) (auto dest: xt_inj)

lemma funpow_numeral_step: "(f ^^ numeral k) x = (f ^^ pred_numeral k) (f x)"
  by (simp add: numeral_eq_Suc funpow_swap1)

lemma noUnit_numeral: "noUnit (numeral k) b = (b \<noteq> 1 \<and> noUnit (pred_numeral k) (xt b))"
  by (simp add: numeral_eq_Suc)

lemma noUnit_sound: "noUnit n b \<Longrightarrow> i < n \<Longrightarrow> (xt ^^ i) b \<noteq> 1"
proof (induction n arbitrary: b i)
  case 0
  then show ?case by simp
next
  case (Suc n)
  show ?case
  proof (cases i)
    case 0
    with Suc.prems show ?thesis by simp
  next
    case (Suc k)
    with Suc.prems have "(xt ^^ k) (xt b) \<noteq> 1"
      by (intro Suc.IH) auto
    with Suc show ?thesis by (simp add: funpow_swap1)
  qed
qed

lemma alpha_0: "alpha 0 = 1"
  by (simp add: alpha_def)

lemma alpha_Suc: "alpha (Suc i) = xt (alpha i)"
  by (simp add: alpha_def)

lemma alpha_add: "alpha (i + j) = (xt ^^ j) (alpha i)"
  by (simp add: alpha_def add.commute [of i j] funpow_add)

lemma alpha_255: "alpha 255 = 1"
  by (simp add: alpha_def funpow_numeral_step xt_def not_128_le_1)

lemma noUnit_254: "noUnit 254 2"
  by (simp add: noUnit_numeral xt_def not_128_le_1)

lemma alpha_not_1: "0 < d \<Longrightarrow> d < 255 \<Longrightarrow> alpha d \<noteq> 1"
proof -
  assume d: "0 < d" "d < 255"
  then obtain k where k: "d = Suc k" by (cases d) auto
  have "xt 1 = 2" by (simp add: xt_def not_128_le_1)
  then have "alpha d = (xt ^^ k) 2"
    by (simp add: k alpha_def funpow_swap1)
  moreover have "(xt ^^ k) 2 \<noteq> 1"
    using noUnit_sound [OF noUnit_254, of k] d k by simp
  ultimately show ?thesis by simp
qed

lemma alpha_nonzero: "alpha i \<noteq> 0"
proof
  assume "alpha i = 0"
  then have "(xt ^^ i) 1 = (xt ^^ i) 0" by (simp add: alpha_def xt_pow_zero)
  then have "(1 :: byte) = 0" by (rule xt_pow_inj)
  then show False by simp
qed

lemma alpha_period: "alpha (n + 255) = alpha n"
proof -
  have "alpha (255 + n) = (xt ^^ n) (alpha 255)" by (rule alpha_add)
  also have "\<dots> = (xt ^^ n) 1" by (simp only: alpha_255)
  also have "\<dots> = alpha n" by (simp add: alpha_def)
  finally show ?thesis by (simp add: add.commute)
qed

lemma alpha_mod: "alpha (n mod 255) = alpha n"
proof (induction n rule: less_induct)
  case (less n)
  show ?case
  proof (cases "n < 255")
    case True
    then show ?thesis by simp
  next
    case False
    then have n: "n = (n - 255) + 255" by simp
    have "alpha ((n - 255) mod 255) = alpha (n - 255)"
      using False by (intro less.IH) simp
    moreover have "(n - 255) mod 255 = n mod 255"
      using False by (simp add: le_mod_geq)
    moreover have "alpha n = alpha (n - 255)"
      by (subst n) (rule alpha_period)
    ultimately show ?thesis by simp
  qed
qed

lemma alpha_inj_aux:
  assumes "i \<le> j" "j < 255" "alpha i = alpha j"
  shows "i = j"
proof (rule ccontr)
  assume "i \<noteq> j"
  with assms have d: "0 < j - i" "j - i < 255" by auto
  have "alpha ((j - i) + i) = (xt ^^ i) (alpha (j - i))" by (rule alpha_add)
  with assms have "(xt ^^ i) 1 = (xt ^^ i) (alpha (j - i))"
    by (simp add: alpha_def)
  then have "alpha (j - i) = 1" by (metis xt_pow_inj)
  with alpha_not_1 [OF d] show False by simp
qed

lemma alpha_inj: "i < 255 \<Longrightarrow> j < 255 \<Longrightarrow> alpha i = alpha j \<Longrightarrow> i = j"
  by (metis alpha_inj_aux nat_le_linear)

lemma alpha_surj:
  assumes "a \<noteq> 0"
  shows "\<exists>i<255. alpha i = a"
proof -
  have inj: "inj_on alpha {..<255}"
    by (auto simp: inj_on_def dest: alpha_inj)
  have sub: "alpha ` {..<255} \<subseteq> UNIV - {0}"
    by (auto simp: alpha_nonzero)
  have "card (alpha ` {..<255}) = 255"
    using inj by (simp add: card_image)
  moreover have "card (UNIV - {0 :: byte}) = 255"
    by (simp add: card_Diff_singleton card_word)
  ultimately have "alpha ` {..<255} = UNIV - {0}"
    using sub by (intro card_subset_eq) auto
  with assms have "a \<in> alpha ` {..<255}" by simp
  then obtain i where "i \<in> {..<255}" "a = alpha i" by (rule imageE)
  then show ?thesis by auto
qed


lemma unat_alpha_less: "unat (alpha i) < 256"
  using unsigned_less [of "alpha i"] by simp

lemma unat_alpha_inj:
  assumes "i < 255" "j < 255" "unat (alpha i) = unat (alpha j)"
  shows "i = j"
proof -
  have "word_of_nat (unat (alpha i)) = (word_of_nat (unat (alpha j)) :: byte)"
    using assms(3) by simp
  then have "alpha i = alpha j" by simp
  with assms show ?thesis by (auto dest: alpha_inj)
qed

lemma initLoop_next:
  "(if GF_SIZE \<le> push_bit 1 (unat (alpha i))
    then push_bit 1 (unat (alpha i)) XOR PRIMITIVE_POLYNOMIAL
    else push_bit 1 (unat (alpha i))) = unat (alpha (i + 1))"
  by (simp add: alpha_Suc xt_unat GF_SIZE_def PRIMITIVE_POLYNOMIAL_def push_bit_eq_mult
      mult.commute)

lemma initLoop_inv:
  assumes "i \<le> 255" "x = unat (alpha i)" "length ex = 512" "length lg = 256"
    and "\<forall>j<i. ex ! j = alpha j \<and> ex ! (j + 255) = alpha j"
    and "\<forall>j<i. lg ! unat (alpha j) = of_nat j"
  shows "case initLoop i x ex lg of (ex', lg') \<Rightarrow>
           length ex' = 512 \<and> length lg' = 256 \<and>
           (\<forall>j<255. ex' ! j = alpha j \<and> ex' ! (j + 255) = alpha j) \<and>
           (\<forall>j<255. lg' ! unat (alpha j) = of_nat j)"
  using assms
proof (induction i x ex lg rule: initLoop.induct)
  case (1 i x ex lg)
  show ?case
  proof (cases "i < 255")
    case False
    with "1.prems" have "i = 255" by simp
    with "1.prems" show ?thesis
      by (subst initLoop.simps) simp
  next
    case True
    define ex2 where "ex2 = ex[i := of_nat x, i + 255 := of_nat x]"
    define lg1 where "lg1 = lg[x := of_nat i]"
    define x2 where "x2 = (if GF_SIZE \<le> push_bit 1 x then push_bit 1 x XOR PRIMITIVE_POLYNOMIAL
                          else push_bit 1 x)"
    have step: "initLoop i x ex lg = initLoop (i + 1) x2 ex2 lg1"
      using True by (subst initLoop.simps) (simp add: Let_def ex2_def lg1_def x2_def)
    have x: "of_nat x = alpha i" "x < 256"
      using "1.prems"(2) unat_alpha_less [of i] by simp_all
    have x2: "x2 = unat (alpha (i + 1))"
      unfolding x2_def "1.prems"(2) by (rule initLoop_next)
    have len: "length ex2 = 512" "length lg1 = 256"
      using "1.prems" by (simp_all add: ex2_def lg1_def)
    have ex2: "\<forall>j<i + 1. ex2 ! j = alpha j \<and> ex2 ! (j + 255) = alpha j"
      using "1.prems"(3,5) True x(1)
      by (auto simp: ex2_def nth_list_update less_Suc_eq)
    have lg1: "\<forall>j<i + 1. lg1 ! unat (alpha j) = of_nat j"
    proof (intro allI impI)
      fix j assume j: "j < i + 1"
      show "lg1 ! unat (alpha j) = of_nat j"
      proof (cases "j = i")
        case True
        then show ?thesis
          using "1.prems"(2,4) x(2) by (simp add: lg1_def)
      next
        case False
        with j have ji: "j < i" by simp
        then have "unat (alpha j) \<noteq> unat (alpha i)"
          using True unat_alpha_inj [of j i] by auto
        then show ?thesis
          using "1.prems"(2,6) ji by (simp add: lg1_def)
      qed
    qed
    have "case initLoop (i + 1) x2 ex2 lg1 of (ex', lg') \<Rightarrow>
           length ex' = 512 \<and> length lg' = 256 \<and>
           (\<forall>j<255. ex' ! j = alpha j \<and> ex' ! (j + 255) = alpha j) \<and>
           (\<forall>j<255. lg' ! unat (alpha j) = of_nat j)"
      using True x2 len ex2 lg1 unfolding x2_def ex2_def lg1_def
      by (intro "1.IH" [OF True refl refl refl refl refl]) simp_all
    with step show ?thesis by simp
  qed
qed

lemma initTables_spec:
  "length gfExp = 512 \<and>
   (\<forall>j<255. gfExp ! j = alpha j \<and> gfExp ! (j + 255) = alpha j) \<and>
   (\<forall>j<255. gfLog ! unat (alpha j) = of_nat j)"
proof -
  obtain ex' lg' where r: "initLoop 0 1 (replicate 512 0) (replicate 256 0) = (ex', lg')"
    by (cases "initLoop 0 1 (replicate 512 0) (replicate 256 0)")
  have "case initLoop 0 1 (replicate 512 0) (replicate 256 0) of (ex', lg') \<Rightarrow>
           length ex' = 512 \<and> length lg' = 256 \<and>
           (\<forall>j<255. ex' ! j = alpha j \<and> ex' ! (j + 255) = alpha j) \<and>
           (\<forall>j<255. lg' ! unat (alpha j) = of_nat j)"
    by (rule initLoop_inv) (simp_all add: alpha_0)
  with r have inv: "length ex' = 512" "length lg' = 256"
      "\<forall>j<255. ex' ! j = alpha j \<and> ex' ! (j + 255) = alpha j"
      "\<forall>j<255. lg' ! unat (alpha j) = of_nat j"
    by simp_all
  have nz: "unat (alpha j) \<noteq> 0" for j
    using alpha_nonzero [of j] by (simp add: unat_eq_0)
  show ?thesis
    unfolding gfExp_def gfLog_def initTables_def r
    using inv nz by simp
qed


lemma gfExp_alpha: "k < 510 \<Longrightarrow> gfExp ! k = alpha k"
proof (cases "k < 255")
  case True
  then show ?thesis using initTables_spec by simp
next
  case False
  assume "k < 510"
  with False have k: "k - 255 < 255" "k = (k - 255) + 255" by simp_all
  have "gfExp ! ((k - 255) + 255) = alpha (k - 255)"
    using initTables_spec k(1) by blast
  also have "\<dots> = alpha ((k - 255) + 255)" by (simp only: alpha_period)
  finally show ?thesis using k(2) by simp
qed

lemma gfLog_alpha: "i < 255 \<Longrightarrow> unat (gfLog ! unat (alpha i)) = i"
proof -
  assume i: "i < 255"
  then have "gfLog ! unat (alpha i) = of_nat i" using initTables_spec by blast
  moreover have "unat (word_of_nat i :: byte) = i"
    using i by (simp add: unat_of_nat)
  ultimately show ?thesis by simp
qed

lemma alpha_cong: "i mod 255 = j mod 255 \<Longrightarrow> alpha i = alpha j"
  by (metis alpha_mod)

lemma gfMul_alpha_small:
  assumes "i < 255" "j < 255"
  shows "gfMul (alpha i) (alpha j) = alpha (i + j)"
  using assms by (simp add: gfMul_def alpha_nonzero gfLog_alpha gfExp_alpha)

lemma gfMul_alpha: "gfMul (alpha i) (alpha j) = alpha (i + j)"
proof -
  have "gfMul (alpha i) (alpha j) = gfMul (alpha (i mod 255)) (alpha (j mod 255))"
    by (simp only: alpha_mod)
  also have "\<dots> = alpha (i mod 255 + j mod 255)"
    by (rule gfMul_alpha_small) simp_all
  also have "\<dots> = alpha (i + j)"
    by (rule alpha_cong) (simp add: mod_add_eq)
  finally show ?thesis .
qed

lemma gfMul_zero: "gfMul 0 b = 0" "gfMul a 0 = 0"
  by (simp_all add: gfMul_def)

lemma gfMul_xt_pow: "gfMul a (alpha j) = (xt ^^ j) a"
proof (cases "a = 0")
  case True
  then show ?thesis by (simp add: gfMul_zero xt_pow_zero)
next
  case False
  then obtain i where "alpha i = a" using alpha_surj by blast
  then show ?thesis using gfMul_alpha [of i j] alpha_add [of i j] by simp
qed

lemma gfMul_commute: "gfMul a b = gfMul b a"
  by (simp add: gfMul_def add.commute disj_commute)

lemma gfMul_assoc: "gfMul (gfMul a b) c = gfMul a (gfMul b c)"
proof (cases "a = 0 \<or> b = 0 \<or> c = 0")
  case True
  then show ?thesis by (auto simp: gfMul_zero)
next
  case False
  then obtain i j k where "alpha i = a" "alpha j = b" "alpha k = c"
    using alpha_surj by blast
  then show ?thesis
    using gfMul_alpha [of i j] gfMul_alpha [of "i + j" k]
      gfMul_alpha [of j k] gfMul_alpha [of i "j + k"]
    by (simp add: add.assoc)
qed

lemma gfMul_distrib_right: "gfMul (gfAdd a b) c = gfAdd (gfMul a c) (gfMul b c)"
proof (cases "c = 0")
  case True
  then show ?thesis by (simp add: gfMul_zero gfAdd_def)
next
  case False
  then obtain k where "alpha k = c" using alpha_surj by blast
  then show ?thesis
    using gfMul_xt_pow [of _ k] by (simp add: gfAdd_def xt_pow_xor)
qed

lemma gfMul_distrib_left: "gfMul a (gfAdd b c) = gfAdd (gfMul a b) (gfMul a c)"
  using gfMul_distrib_right [of b c a] by (simp add: gfMul_commute)

lemma gfMul_one: "gfMul a 1 = a"
  using gfMul_xt_pow [of a 0] by (simp add: alpha_0)

lemma gfInverse_alpha: "gfInverse (alpha i) = Inr (alpha (255 - i mod 255))"
proof -
  have "gfInverse (alpha (i mod 255)) = Inr (alpha (255 - i mod 255))"
    by (simp add: gfInverse_def alpha_nonzero gfLog_alpha gfExp_alpha)
  then show ?thesis by (simp only: alpha_mod)
qed

lemma inverse_exponent: "(i + (255 - i mod 255)) mod 255 = (0 :: nat)"
proof -
  define q r where "q = i div 255" and "r = i mod 255"
  have "i = 255 * q + r" "r < 255" by (simp_all add: q_def r_def)
  then have "i + (255 - r) = 255 * (q + 1)" by simp
  then show ?thesis unfolding r_def [symmetric] by (metis mod_mult_self1_is_0)
qed

lemma gfMul_gfInverse:
  assumes "a \<noteq> 0"
  shows "\<exists>b. gfInverse a = Inr b \<and> gfMul a b = 1"
proof -
  obtain i where i: "alpha i = a" using assms alpha_surj by blast
  have "gfMul (alpha i) (alpha (255 - i mod 255)) = alpha (i + (255 - i mod 255))"
    by (rule gfMul_alpha)
  also have "\<dots> = alpha 0"
    by (rule alpha_cong) (simp only: inverse_exponent mod_0)
  finally show ?thesis using i gfInverse_alpha [of i] by (simp add: alpha_0)
qed

lemma gfPow_255:
  assumes "a \<noteq> 0"
  shows "gfPow a 255 = 1"
proof -
  have "gfExp ! 0 = alpha 0" by (rule gfExp_alpha) simp
  with assms show ?thesis by (simp add: gfPow_def alpha_0)
qed


lemma byte_split: "(b :: byte) = (if odd b then 1 else 0) XOR push_bit 1 (drop_bit 1 b)"
  by (rule byte_all [of _ b]) (simp add: allBelow_numeral)

lemma drop_bit_1_small: "\<not> 128 \<le> drop_bit 1 (b :: byte)"
  by (rule byte_all [of _ b]) (simp add: allBelow_numeral not_128_le_1)

lemma alpha_1: "alpha (Suc 0) = 2"
  by (simp add: alpha_def xt_def not_128_le_1)

lemma gfMul_two: "gfMul a 2 = xt a"
  using gfMul_xt_pow [of a "Suc 0"] by (simp add: alpha_1)

lemma gfMul_push:
  assumes "\<not> 128 \<le> c"
  shows "gfMul a (push_bit 1 c) = gfMul (xt a) c"
proof -
  have "push_bit 1 c = gfMul 2 c"
    using assms gfMul_two [of c] by (simp add: xt_def gfMul_commute)
  then have "gfMul a (push_bit 1 c) = gfMul (gfMul a 2) c"
    by (simp add: gfMul_assoc)
  then show ?thesis by (simp add: gfMul_two)
qed

lemma gfMul_gmulBits: "drop_bit n b = 0 \<Longrightarrow> gfMul a b = gmulBits n a b"
proof (induction n arbitrary: a b)
  case 0
  then show ?case by (simp add: gfMul_zero)
next
  case (Suc n)
  define c where "c = drop_bit 1 b"
  have "drop_bit n c = 0"
    using Suc.prems by (simp add: c_def)
  then have IH: "gfMul (xt a) c = gmulBits n (xt a) c" by (rule Suc.IH)
  have "gfMul a b = gfMul a (gfAdd (if odd b then 1 else 0) (push_bit 1 c))"
    unfolding gfAdd_def c_def by (subst byte_split [of b]) (rule refl)
  also have "\<dots> = gfAdd (gfMul a (if odd b then 1 else 0)) (gfMul a (push_bit 1 c))"
    by (rule gfMul_distrib_left)
  also have "gfMul a (push_bit 1 c) = gfMul (xt a) c"
    unfolding c_def by (rule gfMul_push) (rule drop_bit_1_small)
  also have "gfMul a (if odd b then 1 else 0) = (if odd b then a else 0)"
    by (simp add: gfMul_one gfMul_zero)
  finally show ?case using IH unfolding c_def by (simp add: gfAdd_def)
qed

lemma gfMul_eval: "gfMul a b = gmulBits 8 a b"
  by (rule gfMul_gmulBits) simp

lemma gmulBits_numeral:
  "gmulBits (numeral k) a b =
     (if odd b then a else 0) XOR gmulBits (pred_numeral k) (xt a) (drop_bit 1 b)"
  by (simp add: numeral_eq_Suc)

lemma gfMul_cancel:
  assumes "b \<noteq> 0" "gfMul x b = gfMul y b"
  shows "x = y"
proof -
  obtain c where c: "gfMul b c = 1" using assms(1) gfMul_gfInverse by blast
  have "gfMul (gfMul x b) c = gfMul (gfMul y b) c" using assms(2) by simp
  then show ?thesis by (simp add: gfMul_assoc c gfMul_one)
qed

lemma gfPow_alpha: "gfPow (alpha i) n = alpha (i * n)"
proof (cases "n = 0")
  case True
  then show ?thesis by (simp add: gfPow_def alpha_0)
next
  case False
  have "gfPow (alpha (i mod 255)) n = alpha ((i mod 255 * n) mod 255)"
    using False by (simp add: gfPow_def alpha_nonzero gfLog_alpha gfExp_alpha)
  also have "\<dots> = alpha (i * n)"
    by (rule alpha_cong) (simp add: mod_mult_left_eq)
  finally show ?thesis by (simp only: alpha_mod)
qed

lemma gfPow_Suc: "gfPow a (Suc n) = gfMul a (gfPow a n)"
proof (cases "a = 0")
  case True
  then show ?thesis by (simp add: gfPow_def gfMul_zero)
next
  case False
  then obtain i where "alpha i = a" using alpha_surj by blast
  then show ?thesis
    using gfPow_alpha [of i "Suc n"] gfPow_alpha [of i n] gfMul_alpha [of i "i * n"]
    by simp
qed

lemma gfPow_0: "gfPow a 0 = 1"
  by (simp add: gfPow_def)

lemma gfPow_numeral: "gfPow a (numeral k) = gfMul a (gfPow a (pred_numeral k))"
  by (simp add: numeral_eq_Suc gfPow_Suc)

lemma gfPow_1: "gfPow a (Suc 0) = a"
  by (simp add: gfPow_Suc gfPow_0 gfMul_one)

lemma gfInverse_eval: "gfInverse a = (if a = 0 then Inl ZeroInverse else Inr (gfPow a 254))"
proof (cases "a = 0")
  case True
  then show ?thesis by (simp add: gfInverse_def)
next
  case False
  then obtain b where b: "gfInverse a = Inr b" "gfMul a b = 1"
    using gfMul_gfInverse by blast
  have "gfMul a (gfPow a 254) = gfPow a (Suc 254)" by (simp only: gfPow_Suc)
  also have "\<dots> = 1" using gfPow_255 [OF False] by simp
  finally have "gfMul (gfPow a 254) a = gfMul b a"
    using b(2) by (simp add: gfMul_commute)
  then have "gfPow a 254 = b" using False by (rule gfMul_cancel [rotated])
  with b False show ?thesis by simp
qed

lemma gfDiv_eval:
  "gfDiv a b = (if b = 0 then Inl DivisionByZero else Inr (gfMul a (gfPow b 254)))"
proof (cases "b = 0")
  case True
  then show ?thesis by (simp add: gfDiv_def)
next
  case b: False
  show ?thesis
  proof (cases "a = 0")
    case True
    with b show ?thesis by (simp add: gfDiv_def gfMul_zero)
  next
    case False
    obtain i where i: "i < 255" "alpha i = a" using False alpha_surj by blast
    obtain j where j: "j < 255" "alpha j = b" using b alpha_surj by blast
    have "gfDiv (alpha i) (alpha j) = Inr (alpha (i + 255 - j))"
      using i(1) j(1) by (simp add: gfDiv_def alpha_nonzero gfLog_alpha gfExp_alpha)
    moreover have "gfMul (alpha (i + 255 - j)) (alpha j) = alpha i"
      using j(1) by (simp add: gfMul_alpha alpha_period)
    moreover have "gfMul (gfMul a (gfPow b 254)) b = a"
    proof -
      have "gfMul (gfPow b 254) b = gfPow b (Suc 254)"
        by (simp only: gfPow_Suc gfMul_commute [of b])
      also have "\<dots> = 1" using gfPow_255 [OF b] by simp
      finally show ?thesis by (simp add: gfMul_assoc gfMul_one)
    qed
    ultimately have "gfDiv a b = Inr (alpha (i + 255 - j))"
        "gfMul (alpha (i + 255 - j)) b = gfMul (gfMul a (gfPow b 254)) b"
      using i j by simp_all
    then show ?thesis using b gfMul_cancel [OF b] by auto
  qed
qed

lemma gfMul_0x53_0xCA: "gfMul 0x53 0xCA = 0x8F"
  by (simp add: gfMul_eval gmulBits_numeral xt_def not_128_le_1)

text \<open>
  C8, as stated: the last clause says that \<open>0x53\<close> and \<open>0xCA\<close> are inverses of each
  other. They are in the field of the polynomial \<open>0x11B\<close>; in the field of the code,
  built on \<open>0x11D\<close>, their product is \<open>0x8F\<close>, not \<open>0x01\<close>.
\<close>

theorem gfMul_0x53_0xCA_counterexample: "gfMul 0x53 0xCA \<noteq> 0x01"
  by (simp add: gfMul_eval gmulBits_numeral xt_def not_128_le_1)

text \<open>
  C8, amended: for all bytes \<open>a\<close>, \<open>b\<close>, \<open>c\<close>, \<open>gfAdd\<close> and \<open>gfMul\<close> are commutative and
  associative, \<open>gfMul\<close> distributes over \<open>gfAdd\<close>, \<open>gfAdd a a = 0\<close>, \<open>gfMul a 1 = a\<close>,
  and for \<open>a \<noteq> 0\<close> the call \<open>gfInverse a\<close> returns a value whose product with \<open>a\<close> is 1
  and \<open>gfPow a 255 = 1\<close>; the product of \<open>0x53\<close> and \<open>0xCA\<close> is \<open>0x8F\<close>.
\<close>

theorem gf_field_laws:
  "gfAdd a b = gfAdd b a \<and>
   gfAdd (gfAdd a b) c = gfAdd a (gfAdd b c) \<and>
   gfMul a b = gfMul b a \<and>
   gfMul (gfMul a b) c = gfMul a (gfMul b c) \<and>
   gfMul a (gfAdd b c) = gfAdd (gfMul a b) (gfMul a c) \<and>
   gfAdd a a = 0 \<and>
   gfMul a 1 = a \<and>
   (a \<noteq> 0 \<longrightarrow> (\<exists>i. gfInverse a = Inr i \<and> gfMul a i = 1) \<and> gfPow a 255 = 1) \<and>
   gfMul 0x53 0xCA = 0x8F"
proof -
  have add: "gfAdd a b = gfAdd b a" "gfAdd (gfAdd a b) c = gfAdd a (gfAdd b c)" "gfAdd a a = 0"
    unfolding gfAdd_def by (rule xor.commute, rule xor.assoc, rule xor_self_eq)
  have inv: "a \<noteq> 0 \<longrightarrow> (\<exists>i. gfInverse a = Inr i \<and> gfMul a i = 1) \<and> gfPow a 255 = 1"
    using gfMul_gfInverse [of a] gfPow_255 [of a] by blast
  show ?thesis
    using add inv gfMul_commute [of a b] gfMul_assoc [of a b c] gfMul_distrib_left [of a b c]
      gfMul_one [of a] gfMul_0x53_0xCA
    by (intro conjI) assumption+
qed

theorem gf_field_laws_witness:
  "(2 :: byte) \<noteq> 0 \<and> (\<exists>i. gfInverse 2 = Inr i \<and> gfMul 2 i = 1) \<and> gfPow 2 255 = 1 \<and>
   gfMul 2 (gfAdd 3 5) = gfAdd (gfMul 2 3) (gfMul 2 5)"
  using gf_field_laws [of 2 3 5] by simp

section \<open>Erasure decoding beyond the budget\<close>

lemma filter_index_length:
  "length (filter (\<lambda>i. P (xs ! i)) [0..<length xs]) = length (filter P xs)"
proof -
  have "filter P (map (\<lambda>i. xs ! i) [0..<length xs]) =
        map (\<lambda>i. xs ! i) (filter (\<lambda>i. P (xs ! i)) [0..<length xs])"
    by (simp add: filter_map comp_def)
  then have "length (filter P (map (\<lambda>i. xs ! i) [0..<length xs])) =
        length (filter (\<lambda>i. P (xs ! i)) [0..<length xs])"
    by simp
  then show ?thesis by (simp add: map_nth)
qed

text \<open>
  C4: when more positions of the input are erased (\<open>None\<close>) than \<open>parityCount\<close>,
  \<open>rsDecode\<close> returns \<^verbatim>\<open>null\<close>: no byte sequence, and no exception either.
\<close>

theorem rsDecode_beyond_budget:
  assumes "parityCount < length (filter (\<lambda>x. x = None) data)"
  shows "rsDecode data dataLength parityCount = Inr None"
  using assms filter_index_length [of "\<lambda>x. x = None" data]
  by (simp add: rsDecode_def Let_def)

theorem rsDecode_beyond_budget_witness:
  "1 < length (filter (\<lambda>x. x = None) [None, None, Some (7 :: byte)]) \<and>
   rsDecode [None, None, Some 7] 1 1 = Inr None"
  using rsDecode_beyond_budget [of 1 "[None, None, Some 7]" 1] by simp

section \<open>The multi-frame decoder state\<close>

lemma addFrame_sequenceId: "stSequenceId (snd (addFrame f st)) = Some (sequenceId f)"
  by (auto simp: addFrame_def adopt_def Let_def)

lemma set_update_subset: "set (AList.update k v al) \<subseteq> insert (k, v) (set al)"
  by (induction al) auto

lemma collectedFrames_adopt: "collectedFrames (adopt f st) = collectedFrames st"
  by (simp add: adopt_def)

lemma addFrame_collected_subset:
  "set (collectedFrames (snd (addFrame f st))) \<subseteq>
     insert (frameIndex f, f)
       (if stSequenceId st = None \<or> stSequenceId st = Some (sequenceId f)
        then set (collectedFrames st) else {})"
proof -
  define st1 where "st1 = (if stSequenceId st = None then adopt f st else st)"
  define st2 where "st2 = (if Some (sequenceId f) \<noteq> stSequenceId st1 then adopt f reset else st1)"
  have c1: "collectedFrames st1 = collectedFrames st"
    by (simp add: st1_def collectedFrames_adopt)
  have s1: "stSequenceId st1 = (if stSequenceId st = None then Some (sequenceId f) else stSequenceId st)"
    by (simp add: st1_def adopt_def)
  have c2: "set (collectedFrames st2) \<subseteq>
       (if stSequenceId st = None \<or> stSequenceId st = Some (sequenceId f)
        then set (collectedFrames st) else {})"
    using c1 s1 by (auto simp: st2_def collectedFrames_adopt reset_def)
  have "snd (addFrame f st) =
      (if frameIndex f \<ge> orZero (stTotalFrames st2) then st2
       else st2\<lparr>collectedFrames := AList.update (frameIndex f) f (collectedFrames st2)\<rparr>)"
    by (simp add: addFrame_def Let_def st1_def st2_def)
  then have "set (collectedFrames (snd (addFrame f st))) \<subseteq>
      insert (frameIndex f, f) (set (collectedFrames st2))"
    using set_update_subset [of "frameIndex f" f "collectedFrames st2"] by auto
  with c2 show ?thesis by blast
qed

lemma addFrame_collected:
  assumes "\<forall>p \<in> set (collectedFrames st). stSequenceId st = Some (sequenceId (snd p))"
    and "p \<in> set (collectedFrames (snd (addFrame f st)))"
  shows "sequenceId (snd p) = sequenceId f"
proof -
  have "p = (frameIndex f, f) \<or>
        (p \<in> set (collectedFrames st) \<and>
         (stSequenceId st = None \<or> stSequenceId st = Some (sequenceId f)))"
    using assms(2) addFrame_collected_subset [of f st] by (auto split: if_splits)
  with assms(1) show ?thesis by auto
qed


lemma addFrames_inv:
  assumes "\<forall>p \<in> set (collectedFrames st). stSequenceId st = Some (sequenceId (snd p))"
  shows "\<forall>p \<in> set (collectedFrames (addFrames fs st)).
           stSequenceId (addFrames fs st) = Some (sequenceId (snd p))"
  using assms
proof (induction fs arbitrary: st)
  case Nil
  then show ?case by (simp add: addFrames_def)
next
  case (Cons f fs)
  have "\<forall>p \<in> set (collectedFrames (snd (addFrame f st))).
          stSequenceId (snd (addFrame f st)) = Some (sequenceId (snd p))"
    using addFrame_collected [OF Cons.prems] by (simp add: addFrame_sequenceId)
  then show ?case using Cons.IH [of "snd (addFrame f st)"] by (simp add: addFrames_def)
qed

lemma addFrames_sequenceId:
  "fs \<noteq> [] \<Longrightarrow> stSequenceId (addFrames fs st) = Some (sequenceId (last fs))"
proof (induction fs arbitrary: st)
  case Nil
  then show ?case by simp
next
  case (Cons f fs)
  show ?case
  proof (cases "fs = []")
    case True
    then show ?thesis by (simp add: addFrames_def addFrame_sequenceId)
  next
    case False
    then show ?thesis using Cons.IH [of "snd (addFrame f st)"] by (simp add: addFrames_def)
  qed
qed

text \<open>
  C6: after a new decoder has been fed any frames, the last of them with sequence id
  \<open>s\<close>, the state carries \<open>s\<close> and every frame it holds has sequence id \<open>s\<close>, whatever
  ids came before; and a frame with id \<open>0x1234\<close>, 5 frames and index 0 followed by one
  with id \<open>0x9ABC\<close>, 8 frames and index 0 leaves exactly the second frame, with
  \<open>totalFrames = 8\<close>.
\<close>

theorem sequence_isolation:
  assumes "fs \<noteq> []"
  shows "stSequenceId (addFrames fs reset) = Some (sequenceId (last fs)) \<and>
         list_all (\<lambda>p. sequenceId (snd p) = sequenceId (last fs))
           (collectedFrames (addFrames fs reset)) \<and>
         addFrames
           [\<lparr>frameIndex = 0, totalFrames = 5, sequenceId = 0x1234, dataChunk = c1, checksum = k1\<rparr>,
            \<lparr>frameIndex = 0, totalFrames = 8, sequenceId = 0x9ABC, dataChunk = c2, checksum = k2\<rparr>]
           reset =
         \<lparr>stSequenceId = Some 0x9ABC, stTotalFrames = Some 8, stDataFrames = Some 7,
          stParityFrames = Some 1,
          collectedFrames =
            [(0, \<lparr>frameIndex = 0, totalFrames = 8, sequenceId = 0x9ABC, dataChunk = c2,
                  checksum = k2\<rparr>)],
          stOriginalDataLength = None\<rparr>"
proof -
  have seq: "stSequenceId (addFrames fs reset) = Some (sequenceId (last fs))"
    using assms by (rule addFrames_sequenceId)
  have "\<forall>p \<in> set (collectedFrames (addFrames fs reset)).
          stSequenceId (addFrames fs reset) = Some (sequenceId (snd p))"
    by (rule addFrames_inv) (simp add: reset_def)
  with seq have held: "list_all (\<lambda>p. sequenceId (snd p) = sequenceId (last fs))
      (collectedFrames (addFrames fs reset))"
    by (simp add: list_all_iff)
  have "addFrames
           [\<lparr>frameIndex = 0, totalFrames = 5, sequenceId = 0x1234, dataChunk = c1, checksum = k1\<rparr>,
            \<lparr>frameIndex = 0, totalFrames = 8, sequenceId = 0x9ABC, dataChunk = c2, checksum = k2\<rparr>]
           reset =
         \<lparr>stSequenceId = Some 0x9ABC, stTotalFrames = Some 8, stDataFrames = Some 7,
          stParityFrames = Some 1,
          collectedFrames =
            [(0, \<lparr>frameIndex = 0, totalFrames = 8, sequenceId = 0x9ABC, dataChunk = c2,
                  checksum = k2\<rparr>)],
          stOriginalDataLength = None\<rparr>"
    by (simp add: addFrames_def addFrame_def adopt_def reset_def orZero_def
        estimateDataFrames_def Let_def)
  with seq held show ?thesis by simp
qed

theorem sequence_isolation_witness:
  "[\<lparr>frameIndex = 0, totalFrames = 5, sequenceId = 0x1234, dataChunk = replicate 10 0,
      checksum = 0\<rparr>,
    \<lparr>frameIndex = 2, totalFrames = 8, sequenceId = 0x9ABC, dataChunk = replicate 10 1,
      checksum = 0\<rparr>] \<noteq> [] \<and>
   stSequenceId (addFrames
     [\<lparr>frameIndex = 0, totalFrames = 5, sequenceId = 0x1234, dataChunk = replicate 10 0,
       checksum = 0\<rparr>,
      \<lparr>frameIndex = 2, totalFrames = 8, sequenceId = 0x9ABC, dataChunk = replicate 10 1,
       checksum = 0\<rparr>] reset) = Some 0x9ABC \<and>
   list_all (\<lambda>p. sequenceId (snd p) = 0x9ABC)
     (collectedFrames (addFrames
       [\<lparr>frameIndex = 0, totalFrames = 5, sequenceId = 0x1234, dataChunk = replicate 10 0,
         checksum = 0\<rparr>,
        \<lparr>frameIndex = 2, totalFrames = 8, sequenceId = 0x9ABC, dataChunk = replicate 10 1,
         checksum = 0\<rparr>] reset))"
  using sequence_isolation [of
      "[\<lparr>frameIndex = 0, totalFrames = 5, sequenceId = 0x1234, dataChunk = replicate 10 0,
          checksum = 0\<rparr>,
        \<lparr>frameIndex = 2, totalFrames = 8, sequenceId = 0x9ABC, dataChunk = replicate 10 1,
          checksum = 0\<rparr>]"]
  by simp

text \<open>
  C10: \<open>addFrame\<close> is not atomic on rejection. A frame whose index is not below its
  \<open>totalFrames\<close>, given to a decoder that has no sequence id yet or has another one, is
  rejected (\<open>False\<close>), and yet the state is changed: it now carries the sequence id
  and the \<open>totalFrames\<close> of the rejected frame and, where the decoder had another
  sequence id, none of the frames collected before.
\<close>

theorem addFrame_rejection_mutates:
  assumes "totalFrames f \<le> frameIndex f"
    and "stSequenceId st \<noteq> Some (sequenceId f)"
  shows "fst (addFrame f st) = False \<and>
         snd (addFrame f st) \<noteq> st \<and>
         stSequenceId (snd (addFrame f st)) = Some (sequenceId f) \<and>
         stTotalFrames (snd (addFrame f st)) = Some (totalFrames f) \<and>
         (stSequenceId st \<noteq> None \<longrightarrow> collectedFrames (snd (addFrame f st)) = [])"
proof -
  have "stSequenceId (snd (addFrame f st)) = Some (sequenceId f)"
    by (rule addFrame_sequenceId)
  with assms(2) have "snd (addFrame f st) \<noteq> st" by auto
  then show ?thesis
    using assms by (auto simp: addFrame_def adopt_def reset_def orZero_def Let_def)
qed

theorem addFrame_rejection_mutates_witness:
  "totalFrames \<lparr>frameIndex = 9, totalFrames = 8, sequenceId = 0x9ABC, dataChunk = [],
      checksum = 0\<rparr>
     \<le> frameIndex \<lparr>frameIndex = 9, totalFrames = 8, sequenceId = 0x9ABC, dataChunk = [],
      checksum = 0\<rparr> \<and>
   fst (addFrame \<lparr>frameIndex = 9, totalFrames = 8, sequenceId = 0x9ABC, dataChunk = [],
      checksum = 0\<rparr>
     (snd (addFrame \<lparr>frameIndex = 0, totalFrames = 5, sequenceId = 0x1234, dataChunk = [],
        checksum = 0\<rparr> reset))) = False \<and>
   collectedFrames (snd (addFrame \<lparr>frameIndex = 0, totalFrames = 5, sequenceId = 0x1234,
      dataChunk = [], checksum = 0\<rparr> reset)) \<noteq> [] \<and>
   collectedFrames (snd (addFrame \<lparr>frameIndex = 9, totalFrames = 8, sequenceId = 0x9ABC,
      dataChunk = [], checksum = 0\<rparr>
     (snd (addFrame \<lparr>frameIndex = 0, totalFrames = 5, sequenceId = 0x1234, dataChunk = [],
        checksum = 0\<rparr> reset)))) = [] \<and>
   stTotalFrames (snd (addFrame \<lparr>frameIndex = 9, totalFrames = 8, sequenceId = 0x9ABC,
      dataChunk = [], checksum = 0\<rparr>
     (snd (addFrame \<lparr>frameIndex = 0, totalFrames = 5, sequenceId = 0x1234, dataChunk = [],
        checksum = 0\<rparr> reset)))) = Some 8"
  using addFrame_rejection_mutates [of
      "\<lparr>frameIndex = 9, totalFrames = 8, sequenceId = 0x9ABC, dataChunk = [], checksum = 0\<rparr>"
      "snd (addFrame \<lparr>frameIndex = 0, totalFrames = 5, sequenceId = 0x1234, dataChunk = [],
         checksum = 0\<rparr> reset)"]
  by (simp add: addFrame_def adopt_def reset_def orZero_def Let_def)

section \<open>The frame codec\<close>

lemma upt_10: "[0..<10] = [0, 1, 2, 3, 4, 5, 6, 7, 8, 9]"
  by (simp add: upt_rec)

lemma length_serializeFrame: "length (serializeFrame f) = 16"
  by (simp add: serializeFrame_def FRAME_DATA_SIZE_def)

lemma and_255_small: "n < 256 \<Longrightarrow> n AND 255 = (n :: nat)"
  using take_bit_nat_eq_self [of n 8] by (simp add: take_bit_eq_mask mask_eq_exp_minus_1)

lemma unat_byte_of_nat: "n < 256 \<Longrightarrow> unat (word_of_nat n :: byte) = n"
  by (simp add: unat_of_nat)

lemma sequenceId_bytes:
  assumes "s < 65536"
  shows "push_bit 8 (drop_bit 8 s AND 255) OR (s AND 255) = (s :: nat)"
proof -
  have "drop_bit 8 s < 256"
    using assms by (simp add: drop_bit_eq_div)
  then have hi: "drop_bit 8 s AND 255 = drop_bit 8 s" by (rule and_255_small)
  have lo: "s AND 255 = take_bit 8 s"
    by (simp add: take_bit_eq_mask mask_eq_exp_minus_1)
  have "push_bit 8 (drop_bit 8 s) OR take_bit 8 s = s"
    by (rule bit_eqI) (auto simp: bit_simps)
  with hi lo show ?thesis by simp
qed

lemma sequenceId_hi: "s < 65536 \<Longrightarrow> drop_bit 8 s AND 255 < (256 :: nat)"
  by (simp add: drop_bit_eq_div and_255_small)

lemma and_255_less: "(n :: nat) AND 255 < 256"
  using take_bit_nat_less_exp [of 8 n] by (simp add: take_bit_eq_mask mask_eq_exp_minus_1)

text \<open>
  C7: a frame within the ranges of the data model (index below 256, \<open>totalFrames\<close>
  from 1 to 255, sequence id below 65536, checksum below 256, a chunk of exactly 10
  bytes) is returned unchanged by \<open>deserializeFrame\<close> after \<open>serializeFrame\<close>, and byte 15
  of its serialization is 0.
\<close>

theorem frame_codec_roundtrip:
  assumes "frameIndex f < 256" "1 \<le> totalFrames f" "totalFrames f < 256"
    and "sequenceId f < 65536" "checksum f < 256" "length (dataChunk f) = 10"
  shows "deserializeFrame (serializeFrame f) = f \<and> serializeFrame f ! 15 = 0"
proof -
  define c where "c = dataChunk f"
  have c: "length c = 10" using assms(6) by (simp add: c_def)
  then obtain c0 c1 c2 c3 c4 c5 c6 c7 c8 c9 where cs: "c = [c0, c1, c2, c3, c4, c5, c6, c7, c8, c9]"
    by (auto simp: length_Suc_conv eval_nat_numeral)
  have ser: "serializeFrame f =
      [of_nat (frameIndex f AND 255), of_nat (totalFrames f AND 255),
       of_nat (drop_bit 8 (sequenceId f) AND 255), of_nat (sequenceId f AND 255),
       c0, c1, c2, c3, c4, c5, c6, c7, c8, c9, of_nat (checksum f AND 255), 0]"
    by (simp add: serializeFrame_def FRAME_DATA_SIZE_def upt_10 u8get_def flip: c_def)
       (simp add: cs)
  have fi: "unat (word_of_nat (frameIndex f AND 255) :: byte) = frameIndex f"
    using assms(1) by (simp add: and_255_small unat_byte_of_nat)
  have tf: "unat (word_of_nat (totalFrames f AND 255) :: byte) = totalFrames f"
    using assms(3) by (simp add: and_255_small unat_byte_of_nat)
  have ck: "unat (word_of_nat (checksum f AND 255) :: byte) = checksum f"
    using assms(5) by (simp add: and_255_small unat_byte_of_nat)
  have sq: "push_bit 8 (unat (word_of_nat (drop_bit 8 (sequenceId f) AND 255) :: byte))
             OR unat (word_of_nat (sequenceId f AND 255) :: byte) = sequenceId f"
    using sequenceId_bytes [OF assms(4)] sequenceId_hi [OF assms(4)] and_255_less [of "sequenceId f"]
    by (simp add: unat_byte_of_nat)
  have "deserializeFrame (serializeFrame f) =
      \<lparr>frameIndex = frameIndex f, totalFrames = totalFrames f, sequenceId = sequenceId f,
       dataChunk = c, checksum = checksum f\<rparr>"
    unfolding ser deserializeFrame_def
    using fi tf ck sq by (simp add: FRAME_DATA_SIZE_def upt_10 u8get_def cs)
  moreover have "serializeFrame f ! 15 = 0"
    unfolding ser by simp
  ultimately show ?thesis by (simp add: c_def)
qed

theorem frame_codec_roundtrip_witness:
  "frameIndex \<lparr>frameIndex = 3, totalFrames = 6, sequenceId = 0x9ABC,
      dataChunk = [72, 101, 108, 108, 111, 32, 65, 117, 114, 111], checksum = 0x5D\<rparr> < 256 \<and>
   deserializeFrame (serializeFrame \<lparr>frameIndex = 3, totalFrames = 6, sequenceId = 0x9ABC,
      dataChunk = [72, 101, 108, 108, 111, 32, 65, 117, 114, 111], checksum = 0x5D\<rparr>) =
     \<lparr>frameIndex = 3, totalFrames = 6, sequenceId = 0x9ABC,
      dataChunk = [72, 101, 108, 108, 111, 32, 65, 117, 114, 111], checksum = 0x5D\<rparr> \<and>
   serializeFrame \<lparr>frameIndex = 3, totalFrames = 6, sequenceId = 0x9ABC,
      dataChunk = [72, 101, 108, 108, 111, 32, 65, 117, 114, 111], checksum = 0x5D\<rparr> ! 15 = 0"
  using frame_codec_roundtrip [of "\<lparr>frameIndex = 3, totalFrames = 6, sequenceId = 0x9ABC,
      dataChunk = [72, 101, 108, 108, 111, 32, 65, 117, 114, 111], checksum = 0x5D\<rparr>"]
  by simp

section \<open>The decision of the detector\<close>





section \<open>The size of a packet\<close>












end
